theory Spec2Isabelle
  imports Complex_Main "HOL-Library.Multiset"
begin

section \<open>The catch game of \<open>simple_game.py\<close>\<close>

text \<open>
  Coordinates are Python floats in the source (\<open>WIDTH / 2\<close>, the canvas coordinates).
  Every coordinate the game produces is a small integer (the paddle starts at 250 and
  moves in steps of 8 between 50 and 450; a ball starts at an integer x and at y = -12
  and falls in steps of 4), which a float represents exactly, so coordinates are
  modelled as \<open>real\<close>. Score and lives are Python's unbounded integers.
\<close>

subsection \<open>Constants\<close>

definition WIDTH :: real where "WIDTH = 500"
definition HEIGHT :: real where "HEIGHT = 400"
definition PADDLE_WIDTH :: real where "PADDLE_WIDTH = 100"
definition PADDLE_HEIGHT :: real where "PADDLE_HEIGHT = 12"
definition BALL_RADIUS :: real where "BALL_RADIUS = 12"
definition BALL_FALL_SPEED :: real where "BALL_FALL_SPEED = 4"

subsection \<open>Canvas items\<close>

text \<open>
  A canvas item is its bounding box \<open>[x1, y1, x2, y2]\<close>, the list that
  \<open>canvas.coords\<close> returns. \<open>canvas.move\<close> shifts the box.
\<close>

type_synonym coords = "real \<times> real \<times> real \<times> real"

fun canvas_move :: "coords \<Rightarrow> real \<Rightarrow> real \<Rightarrow> coords" where
  "canvas_move (x1, y1, x2, y2) dx dy = (x1 + dx, y1 + dy, x2 + dx, y2 + dy)"

text \<open>
  Class \<open>Ball\<close>. The oval of a ball is owned by that ball alone and is read and
  written only through it, so the ball carries the coordinates of its oval. \<open>bid\<close>
  is the field \<open>id\<close>, the canvas handle, which tells two Ball objects apart.
\<close>

record ball =
  bid :: nat
  r :: real
  oval :: coords

text \<open>\<open>Ball.__init__\<close>: the oval around \<open>(x, y)\<close>.\<close>

definition Ball :: "nat \<Rightarrow> real \<Rightarrow> real \<Rightarrow> real \<Rightarrow> ball" where
  "Ball i x y rad = \<lparr>bid = i, r = rad, oval = (x - rad, y - rad, x + rad, y + rad)\<rparr>"

definition move :: "ball \<Rightarrow> real \<Rightarrow> real \<Rightarrow> ball" where
  "move b dx dy = b\<lparr>oval := canvas_move (oval b) dx dy\<rparr>"

fun centre :: "coords \<Rightarrow> real \<times> real" where
  "centre (x1, y1, x2, y2) = ((x1 + x2) / 2, (y1 + y2) / 2)"

definition pos :: "ball \<Rightarrow> real \<times> real" where
  "pos b = centre (oval b)"

subsection \<open>The game state\<close>

text \<open>
  The fields of class \<open>Game\<close> that the game reads. \<open>paddle\<close> is the rectangle of the
  paddle on the canvas, \<open>next_id\<close> the handle the canvas gives to the next item it
  creates. The two text items only display \<open>score\<close> and \<open>lives\<close>; they take a handle
  each and hold no state of their own.
\<close>

record game =
  paddle_x :: real
  paddle :: coords
  score :: int
  lives :: int
  move_left :: bool
  move_right :: bool
  balls :: "ball list"
  game_over :: bool
  next_id :: nat

text \<open>\<open>Game.set_move\<close>.\<close>

definition set_move :: "int \<Rightarrow> game \<Rightarrow> game" where
  "set_move dir g =
     (if dir = -1 then g\<lparr>move_left := True, move_right := False\<rparr>
      else if dir = 1 then g\<lparr>move_right := True, move_left := False\<rparr>
      else g\<lparr>move_left := False, move_right := False\<rparr>)"

text \<open>
  \<open>Game.spawn_ball\<close>. The argument \<open>x\<close> is the value drawn by
  \<open>random.randint(BALL_RADIUS, WIDTH - BALL_RADIUS)\<close>.
\<close>

definition spawn_ball :: "int \<Rightarrow> game \<Rightarrow> game" where
  "spawn_ball x g =
     (if game_over g then g
      else g\<lparr>balls := balls g @ [Ball (next_id g) (of_int x) (- BALL_RADIUS) BALL_RADIUS],
              next_id := Suc (next_id g)\<rparr>)"

text \<open>\<open>Game.end_game\<close>: the flag, and two text items on the canvas.\<close>

definition end_game :: "game \<Rightarrow> game" where
  "end_game g = g\<lparr>game_over := True, next_id := next_id g + 2\<rparr>"

text \<open>The part of \<open>Game.update\<close> under the comment \<open>move paddle\<close>.\<close>

definition move_paddle :: "game \<Rightarrow> game" where
  "move_paddle g =
     (let speed = 8;
          dx = (if move_left g then - speed else if move_right g then speed else 0)
      in if dx \<noteq> 0 then
           (let g1 = g\<lparr>paddle := canvas_move (paddle g) dx 0, paddle_x := paddle_x g + dx\<rparr>;
                left = paddle_x g1 - PADDLE_WIDTH / 2;
                right = paddle_x g1 + PADDLE_WIDTH / 2;
                g2 = (if left < 0 then
                        (let shift = - left
                         in g1\<lparr>paddle := canvas_move (paddle g1) shift 0,
                                paddle_x := paddle_x g1 + shift\<rparr>)
                      else g1);
                g3 = (if right > WIDTH then
                        (let shift = WIDTH - right
                         in g2\<lparr>paddle := canvas_move (paddle g2) shift 0,
                                paddle_x := paddle_x g2 + shift\<rparr>)
                      else g2)
            in g3)
         else g)"

text \<open>
  \<open>ball.move(0, BALL_FALL_SPEED)\<close> changes the ball where it sits in \<open>self.balls\<close>:
  \<open>shift_ball\<close> moves the first entry of the list that is this ball.
  \<open>self.balls.remove(ball)\<close> deletes the first entry that is this ball; the ball comes
  from a copy of the list, so the ValueError of a ball that is not there cannot happen,
  and \<open>remove_ball\<close> leaves such a list as it is.
\<close>

fun shift_ball :: "ball \<Rightarrow> ball list \<Rightarrow> ball list" where
  "shift_ball b [] = []"
| "shift_ball b (c # cs) =
     (if bid c = bid b then move c 0 BALL_FALL_SPEED # cs else c # shift_ball b cs)"

fun remove_ball :: "ball \<Rightarrow> ball list \<Rightarrow> ball list" where
  "remove_ball b [] = []"
| "remove_ball b (c # cs) = (if bid c = bid b then cs else c # remove_ball b cs)"

text \<open>
  The body of the loop \<open>for ball in list(self.balls)\<close> of \<open>Game.update\<close>, for one ball
  of the copied list. A ball is processed once, so the copy still holds its coordinates
  from before the move.
\<close>

definition update_ball :: "ball \<Rightarrow> game \<Rightarrow> game" where
  "update_ball ball0 g0 =
     (let ball = move ball0 0 BALL_FALL_SPEED;
          g = g0\<lparr>balls := shift_ball ball0 (balls g0)\<rparr>;
          (x, y) = pos ball
      in if y + r ball \<ge> HEIGHT - 30 - PADDLE_HEIGHT
            \<and> (case paddle g of (px1, py1, px2, py2) \<Rightarrow> px1 \<le> x \<and> x \<le> px2)
         then g\<lparr>score := score g + 1, balls := remove_ball ball (balls g)\<rparr>
         else if y - r ball > HEIGHT then
           (let g' = g\<lparr>lives := lives g - 1, balls := remove_ball ball (balls g)\<rparr>
            in if lives g' \<le> 0 then end_game g' else g')
         else g)"

fun update_balls :: "ball list \<Rightarrow> game \<Rightarrow> game" where
  "update_balls [] g = g"
| "update_balls (ball # rest) g = update_balls rest (update_ball ball g)"

text \<open>\<open>Game.update\<close>, one frame.\<close>

definition update :: "game \<Rightarrow> game" where
  "update g =
     (if game_over g then g
      else (let g1 = move_paddle g in update_balls (balls g1) g1))"

text \<open>
  \<open>Game.restart\<close>: the canvas is cleared, the paddle, the two texts and the fields are
  set again, and \<open>self.update()\<close> runs once. The fields \<open>move_left\<close> and \<open>move_right\<close>
  are not assigned.
\<close>

definition restart :: "game \<Rightarrow> game" where
  "restart g =
     update (g\<lparr>paddle_x := WIDTH / 2,
               paddle := (WIDTH / 2 - PADDLE_WIDTH / 2, HEIGHT - 30 - PADDLE_HEIGHT,
                          WIDTH / 2 + PADDLE_WIDTH / 2, HEIGHT - 30),
               score := 0, lives := 3, balls := [], game_over := False,
               next_id := next_id g + 3\<rparr>)"

text \<open>\<open>Game.__init__\<close>: the paddle is item 1, the texts are items 2 and 3.\<close>

definition init :: game where
  "init =
     update \<lparr>paddle_x = WIDTH / 2,
             paddle = (WIDTH / 2 - PADDLE_WIDTH / 2, HEIGHT - 30 - PADDLE_HEIGHT,
                       WIDTH / 2 + PADDLE_WIDTH / 2, HEIGHT - 30),
             score = 0, lives = 3, move_left = False, move_right = False,
             balls = [], game_over = False, next_id = 4\<rparr>"

subsection \<open>Events\<close>

text \<open>
  The callbacks that Tk runs, one at a time: a frame, a spawn with its random x, a key
  event with its direction, and the key R.
\<close>

datatype event = Tick | Spawn int | Key int | Restart

fun fire :: "event \<Rightarrow> game \<Rightarrow> game" where
  "fire Tick g = update g"
| "fire (Spawn x) g = spawn_ball x g"
| "fire (Key dir) g = set_move dir g"
| "fire Restart g = restart g"

fun run :: "event list \<Rightarrow> game \<Rightarrow> game" where
  "run [] g = g"
| "run (e # es) g = run es (fire e g)"

subsection \<open>The classifier of the specification\<close>

datatype outcome = Caught | Missed | Falling

text \<open>
  The CollisionResolver as the specification words it: the bottom edge of the entity
  against \<open>floorY\<close> and its centre against the closed span of the paddle first, the top
  edge against the height of the play area second.
\<close>

definition classify :: "real \<Rightarrow> real \<Rightarrow> real \<Rightarrow> real \<Rightarrow> real \<Rightarrow> real \<Rightarrow> real \<Rightarrow> outcome" where
  "classify ex ey radius leftEdge rightEdge floorY playAreaHeight =
     (let entityBottom = ey + radius
      in if entityBottom \<ge> floorY \<and> leftEdge \<le> ex \<and> ex \<le> rightEdge then Caught
         else if ey - radius > playAreaHeight then Missed
         else Falling)"

definition left_edge :: "coords \<Rightarrow> real" where
  "left_edge p = fst p"

definition right_edge :: "coords \<Rightarrow> real" where
  "right_edge p = fst (snd (snd p))"

text \<open>
  The outcome of a ball in a frame whose paddle rectangle is \<open>p\<close>: the classifier on the
  position of the ball after it has advanced by \<open>BALL_FALL_SPEED\<close>, with the top edge of
  the paddle as the floor.
\<close>

definition judge :: "coords \<Rightarrow> ball \<Rightarrow> outcome" where
  "judge p b =
     (let b' = move b 0 BALL_FALL_SPEED
      in classify (fst (pos b')) (snd (pos b')) (r b') (left_edge p) (right_edge p)
           (HEIGHT - 30 - PADDLE_HEIGHT) HEIGHT)"

definition fall :: "ball \<Rightarrow> ball" where
  "fall b = move b 0 BALL_FALL_SPEED"

subsection \<open>States used as examples\<close>

text \<open>A finished game with one ball left on the canvas, and a paddle two pixels from the left wall with the left key held.\<close>

definition over_state :: game where
  "over_state =
     \<lparr>paddle_x = 250, paddle = (200, 358, 300, 370), score = 2, lives = 0,
      move_left = False, move_right = True,
      balls = [\<lparr>bid = 9, r = 12, oval = (88, 100, 112, 124)\<rparr>],
      game_over = True, next_id = 12\<rparr>"

definition edge_state :: game where
  "edge_state =
     \<lparr>paddle_x = 52, paddle = (2, 358, 102, 370), score = 0, lives = 3,
      move_left = True, move_right = False, balls = [], game_over = False, next_id = 4\<rparr>"

text \<open>Three balls of one frame: one over the paddle, one below the canvas, one in mid air; and a game on its last life.\<close>

definition ball_a :: ball where
  "ball_a = \<lparr>bid = 4, r = 12, oval = (238, 332, 262, 356)\<rparr>"

definition ball_b :: ball where
  "ball_b = \<lparr>bid = 5, r = 12, oval = (0, 398, 24, 422)\<rparr>"

definition ball_c :: ball where
  "ball_c = \<lparr>bid = 6, r = 12, oval = (88, 100, 112, 124)\<rparr>"

definition last_life :: game where
  "last_life =
     \<lparr>paddle_x = 250, paddle = (200, 358, 300, 370), score = 0, lives = 1,
      move_left = False, move_right = False, balls = [], game_over = False, next_id = 7\<rparr>"

text \<open>A ball that has fallen wholly below the canvas, five pixels left of the paddle, with the left key held.\<close>

definition late_ball :: ball where
  "late_ball = \<lparr>bid = 4, r = 12, oval = (183, 400, 207, 424)\<rparr>"

definition late_state :: game where
  "late_state =
     \<lparr>paddle_x = 250, paddle = (200, 358, 300, 370), score = 0, lives = 3,
      move_left = True, move_right = False, balls = [late_ball], game_over = False, next_id = 5\<rparr>"

text \<open>
  Sequences of callbacks from the initial state. In \<open>miss_one\<close> a ball appears at the
  left wall, falls for 106 frames and is missed in the next. \<open>double_miss\<close> loses two
  lives this way and then has two balls appear at the left wall before the next frame.
  \<open>before_last_miss\<close> loses two lives, has a ball appear at the left wall and, 17 frames
  later, a ball above the paddle, and stops before the frame in which the first of the
  two passes the bottom.
\<close>

definition miss_one :: "event list" where
  "miss_one = Spawn 12 # replicate 106 Tick @ [Tick]"


definition before_last_miss :: "event list" where
  "before_last_miss =
     miss_one @ miss_one @ Spawn 12 # replicate 17 Tick @ Spawn 250 # replicate 89 Tick"

subsection \<open>The two timers\<close>






text \<open>
  A running game with four balls: one that reaches the paddle row over the paddle, one
  below the canvas, one in mid air, and one below the paddle row to the left of the
  paddle.
\<close>

definition ball_d :: ball where
  "ball_d = \<lparr>bid = 7, r = 12, oval = (88, 360, 112, 384)\<rparr>"

definition busy_state :: game where
  "busy_state =
     \<lparr>paddle_x = 250, paddle = (200, 358, 300, 370), score = 5, lives = 3,
      move_left = False, move_right = False,
      balls = [ball_a, ball_b, ball_c, ball_d], game_over = False, next_id = 8\<rparr>"

section \<open>The loop over the balls in closed form\<close>

lemmas game_consts =
  WIDTH_def HEIGHT_def PADDLE_WIDTH_def PADDLE_HEIGHT_def BALL_RADIUS_def BALL_FALL_SPEED_def

lemma bid_move [simp]: "bid (move b dx dy) = bid b"
  by (simp add: move_def)

lemma r_move [simp]: "r (move b dx dy) = r b"
  by (simp add: move_def)

lemma remove_ball_move [simp]: "remove_ball (move b dx dy) cs = remove_ball b cs"
  by (induction cs) auto

lemma update_ball_judge:
  "update_ball b g =
     (case judge (paddle g) b of
        Caught \<Rightarrow> g\<lparr>score := score g + 1, balls := remove_ball b (shift_ball b (balls g))\<rparr>
      | Missed \<Rightarrow>
          (if lives g - 1 \<le> 0
           then end_game (g\<lparr>lives := lives g - 1, balls := remove_ball b (shift_ball b (balls g))\<rparr>)
           else g\<lparr>lives := lives g - 1, balls := remove_ball b (shift_ball b (balls g))\<rparr>)
      | Falling \<Rightarrow> g\<lparr>balls := shift_ball b (balls g)\<rparr>)"
proof -
  obtain px1 py1 px2 py2 where p: "paddle g = (px1, py1, px2, py2)"
    by (cases "paddle g")
  obtain x y where xy: "pos (move b 0 BALL_FALL_SPEED) = (x, y)"
    by (cases "pos (move b 0 BALL_FALL_SPEED)")
  show ?thesis
    by (simp add: update_ball_def judge_def classify_def left_edge_def right_edge_def Let_def p xy)
qed


lemma paddle_update_ball [simp]: "paddle (update_ball b g) = paddle g"
  by (cases "judge (paddle g) b") (simp_all add: update_ball_judge end_game_def)

lemma score_update_ball:
  "score (update_ball b g) = score g + (if judge (paddle g) b = Caught then 1 else 0)"
  by (cases "judge (paddle g) b") (simp_all add: update_ball_judge end_game_def)

lemma lives_update_ball:
  "lives (update_ball b g) = lives g - (if judge (paddle g) b = Missed then 1 else 0)"
  by (cases "judge (paddle g) b") (simp_all add: update_ball_judge end_game_def)

lemma game_over_update_ball:
  "game_over (update_ball b g) = (game_over g \<or> judge (paddle g) b = Missed \<and> lives g \<le> 1)"
  by (cases "judge (paddle g) b") (simp_all add: update_ball_judge end_game_def)

lemma balls_update_ball:
  "balls (update_ball b g) =
     (if judge (paddle g) b = Falling then shift_ball b (balls g)
      else remove_ball b (shift_ball b (balls g)))"
  by (cases "judge (paddle g) b") (simp_all add: update_ball_judge end_game_def)

lemma paddle_update_balls [simp]: "paddle (update_balls bs g) = paddle g"
  by (induction bs arbitrary: g) simp_all

lemma score_update_balls:
  "score (update_balls bs g) = score g + int (length (filter (\<lambda>b. judge (paddle g) b = Caught) bs))"
  by (induction bs arbitrary: g) (simp_all add: score_update_ball)

lemma lives_update_balls:
  "lives (update_balls bs g) = lives g - int (length (filter (\<lambda>b. judge (paddle g) b = Missed) bs))"
  by (induction bs arbitrary: g) (simp_all add: lives_update_ball)


lemma game_over_update_balls:
  "game_over (update_balls bs g) =
     (game_over g \<or> filter (\<lambda>b. judge (paddle g) b = Missed) bs \<noteq> []
        \<and> lives g \<le> int (length (filter (\<lambda>b. judge (paddle g) b = Missed) bs)))"
proof (induction bs arbitrary: g)
  case Nil
  show ?case by simp
next
  case (Cons b bs)
  show ?case
  proof (cases "judge (paddle g) b = Missed")
    case True
    then show ?thesis
      by (cases "filter (\<lambda>b. judge (paddle g) b = Missed) bs = []")
        (auto simp: Cons.IH game_over_update_ball lives_update_ball)
  next
    case False
    then show ?thesis
      by (simp add: Cons.IH game_over_update_ball lives_update_ball)
  qed
qed

lemma bid_fall [simp]: "bid (fall b) = bid b"
  by (simp add: fall_def)

lemma shift_ball_here:
  "bid b \<notin> bid ` set ks \<Longrightarrow> shift_ball b (ks @ b # bs) = ks @ fall b # bs"
  by (induction ks) (simp_all add: fall_def)

lemma remove_ball_here:
  "bid b \<notin> bid ` set ks \<Longrightarrow> bid c = bid b \<Longrightarrow> remove_ball b (ks @ c # bs) = ks @ bs"
  by (induction ks) simp_all

lemma balls_update_balls:
  "distinct (map bid (ks @ bs)) \<Longrightarrow> balls g = ks @ bs \<Longrightarrow>
   balls (update_balls bs g) = ks @ map fall (filter (\<lambda>b. judge (paddle g) b = Falling) bs)"
proof (induction bs arbitrary: g ks)
  case Nil
  then show ?case by simp
next
  case (Cons b bs)
  have fresh: "bid b \<notin> bid ` set ks"
    using Cons.prems(1) by auto
  show ?case
  proof (cases "judge (paddle g) b = Falling")
    case True
    have eq: "balls (update_ball b g) = (ks @ [fall b]) @ bs"
      using True fresh Cons.prems(2) by (simp add: balls_update_ball shift_ball_here)
    have dist: "distinct (map bid ((ks @ [fall b]) @ bs))"
      using Cons.prems(1) by auto
    show ?thesis
      using Cons.IH[OF dist eq] True by simp
  next
    case False
    have eq: "balls (update_ball b g) = ks @ bs"
      using False fresh Cons.prems(2)
      by (simp add: balls_update_ball shift_ball_here remove_ball_here)
    have dist: "distinct (map bid (ks @ bs))"
      using Cons.prems(1) by auto
    show ?thesis
      using Cons.IH[OF dist eq] False by simp
  qed
qed

section \<open>One frame in closed form\<close>

lemma rest_update_ball [simp]:
  "paddle_x (update_ball b g) = paddle_x g"
  "move_left (update_ball b g) = move_left g"
  "move_right (update_ball b g) = move_right g"
  by (cases "judge (paddle g) b"; simp add: update_ball_judge end_game_def)+

lemma rest_update_balls [simp]:
  "paddle_x (update_balls bs g) = paddle_x g"
  "move_left (update_balls bs g) = move_left g"
  "move_right (update_balls bs g) = move_right g"
  by (induction bs arbitrary: g) simp_all

lemma move_paddle_keeps [simp]:
  "score (move_paddle g) = score g"
  "lives (move_paddle g) = lives g"
  "balls (move_paddle g) = balls g"
  "game_over (move_paddle g) = game_over g"
  "move_left (move_paddle g) = move_left g"
  "move_right (move_paddle g) = move_right g"
  by (simp_all add: move_paddle_def Let_def)

lemma score_update:
  "score (update g) =
     (if game_over g then score g
      else score g + int (length (filter (\<lambda>b. judge (paddle (move_paddle g)) b = Caught) (balls g))))"
  by (simp add: update_def Let_def score_update_balls)

lemma lives_update:
  "lives (update g) =
     (if game_over g then lives g
      else lives g - int (length (filter (\<lambda>b. judge (paddle (move_paddle g)) b = Missed) (balls g))))"
  by (simp add: update_def Let_def lives_update_balls)

lemma game_over_update:
  "game_over (update g) =
     (game_over g \<or> filter (\<lambda>b. judge (paddle (move_paddle g)) b = Missed) (balls g) \<noteq> []
        \<and> lives g \<le> int (length (filter (\<lambda>b. judge (paddle (move_paddle g)) b = Missed) (balls g))))"
  by (simp add: update_def Let_def game_over_update_balls)

lemma balls_update:
  assumes "distinct (map bid (balls g))"
  shows "balls (update g) =
     (if game_over g then balls g
      else map fall (filter (\<lambda>b. judge (paddle (move_paddle g)) b = Falling) (balls g)))"
  using balls_update_balls[of "[]" "balls g" "move_paddle g"] assms
  by (simp add: update_def Let_def)

lemma flags_update [simp]:
  "move_left (update g) = move_left g" "move_right (update g) = move_right g"
  by (simp_all add: update_def Let_def)

section \<open>After the game is over\<close>

lemma fire_when_over:
  assumes "game_over g" and "e \<noteq> Restart"
  shows "score (fire e g) = score g \<and> lives (fire e g) = lives g
         \<and> balls (fire e g) = balls g \<and> game_over (fire e g)"
  using assms by (cases e) (simp_all add: update_def spawn_ball_def set_move_def)

lemma run_when_over:
  "game_over g \<Longrightarrow> Restart \<notin> set es \<Longrightarrow>
   score (run es g) = score g \<and> lives (run es g) = lives g
     \<and> balls (run es g) = balls g \<and> game_over (run es g)"
proof (induction es arbitrary: g)
  case Nil
  then show ?case by simp
next
  case (Cons e es)
  have e: "e \<noteq> Restart" and es: "Restart \<notin> set es"
    using Cons.prems(2) by auto
  note step = fire_when_over[OF Cons.prems(1) e]
  have "game_over (fire e g)" using step by simp
  from Cons.IH[OF this es] step show ?case by simp
qed

section \<open>The two movement flags\<close>

lemma flags_set_move:
  "move_left (set_move d g) = (d = - 1)" "move_right (set_move d g) = (d = 1)"
  by (simp_all add: set_move_def)

lemma flags_fire:
  "\<not> (move_left g \<and> move_right g) \<Longrightarrow> \<not> (move_left (fire e g) \<and> move_right (fire e g))"
  by (cases e) (auto simp: flags_set_move spawn_ball_def restart_def)

lemma flags_run:
  "\<not> (move_left g \<and> move_right g) \<Longrightarrow> \<not> (move_left (run es g) \<and> move_right (run es g))"
proof (induction es arbitrary: g)
  case Nil
  then show ?case by simp
next
  case (Cons e es)
  from Cons.IH[OF flags_fire[OF Cons.prems]] show ?case by simp
qed

lemma flags_init: "\<not> move_left init" "\<not> move_right init"
  by (simp_all add: init_def)

section \<open>Permuted lists of balls\<close>

lemma move_paddle_balls_update:
  "move_paddle (g\<lparr>balls := bs\<rparr>) = (move_paddle g)\<lparr>balls := bs\<rparr>"
  by (simp add: move_paddle_def Let_def)

lemma length_filter_mset:
  "mset bs = mset cs \<Longrightarrow> length (filter P bs) = length (filter P cs)"
proof -
  assume "mset bs = mset cs"
  then have "mset (filter P bs) = mset (filter P cs)"
    by simp
  then show ?thesis
    by (rule mset_eq_length)
qed

lemma filter_empty_mset:
  "mset bs = mset cs \<Longrightarrow> (filter P bs = []) = (filter P cs = [])"
  using length_filter_mset[of bs cs P] by (metis length_0_conv)

lemma distinct_bid_mset:
  "mset bs = mset cs \<Longrightarrow> distinct (map bid bs) = distinct (map bid cs)"
proof -
  assume "mset bs = mset cs"
  then have "mset (map bid bs) = mset (map bid cs)"
    by simp
  then show ?thesis
    by (rule mset_eq_imp_distinct_iff)
qed

lemmas frame_defs =
  update_def move_paddle_def update_ball_def end_game_def move_def pos_def Let_def game_consts

section \<open>A ball and its successor\<close>

lemma pos_fall: "pos (fall b) = (fst (pos b), snd (pos b) + BALL_FALL_SPEED)"
  by (cases "oval b") (simp add: fall_def pos_def move_def)

lemma judge_Caught_iff:
  "(judge p b = Caught) =
     (HEIGHT - 30 - PADDLE_HEIGHT \<le> snd (pos b) + BALL_FALL_SPEED + r b
      \<and> left_edge p \<le> fst (pos b) \<and> fst (pos b) \<le> right_edge p)"
  using pos_fall[of b] by (simp add: judge_def classify_def fall_def Let_def)

lemma bid_inj_on: "distinct (map bid bs) \<Longrightarrow> inj_on bid (set bs)"
  by (simp add: distinct_map)

section \<open>Frames in which every ball keeps falling\<close>

lemma run_append: "run (xs @ ys) g = run ys (run xs g)"
  by (induction xs arbitrary: g) simp_all

lemma update_ball_Falling:
  "judge (paddle g) b = Falling \<Longrightarrow> update_ball b g = g\<lparr>balls := shift_ball b (balls g)\<rparr>"
  by (simp add: update_ball_judge)

lemma update_balls_Falling:
  "distinct (map bid (ks @ bs)) \<Longrightarrow> balls g = ks @ bs \<Longrightarrow>
   \<forall>b\<in>set bs. judge (paddle g) b = Falling \<Longrightarrow>
   update_balls bs g = g\<lparr>balls := ks @ map fall bs\<rparr>"
proof (induction bs arbitrary: g ks)
  case Nil
  then show ?case by simp
next
  case (Cons b bs)
  have fresh: "bid b \<notin> bid ` set ks"
    using Cons.prems(1) by auto
  have f: "judge (paddle g) b = Falling"
    using Cons.prems(3) by simp
  have step: "update_ball b g = g\<lparr>balls := (ks @ [fall b]) @ bs\<rparr>"
    using fresh Cons.prems(2) by (simp add: update_ball_Falling[OF f] shift_ball_here)
  have dist: "distinct (map bid ((ks @ [fall b]) @ bs))"
    using Cons.prems(1) by auto
  have eq: "balls (g\<lparr>balls := (ks @ [fall b]) @ bs\<rparr>) = (ks @ [fall b]) @ bs"
    by simp
  have rest: "\<forall>c\<in>set bs. judge (paddle (g\<lparr>balls := (ks @ [fall b]) @ bs\<rparr>)) c = Falling"
    using Cons.prems(3) by simp
  show ?case
    using Cons.IH[OF dist eq rest] by (simp add: step)
qed

lemma move_paddle_idle: "\<not> move_left g \<Longrightarrow> \<not> move_right g \<Longrightarrow> move_paddle g = g"
  by (simp add: move_paddle_def Let_def)

lemma update_Falling:
  assumes "\<not> game_over g" and "\<not> move_left g" and "\<not> move_right g"
    and "distinct (map bid (balls g))"
    and "\<forall>b\<in>set (balls g). judge (paddle g) b = Falling"
  shows "update g = g\<lparr>balls := map fall (balls g)\<rparr>"
  using update_balls_Falling[of "[]" "balls g" g] assms
  by (simp add: update_def Let_def move_paddle_idle)

lemma ticks_Falling:
  "\<not> game_over g \<Longrightarrow> \<not> move_left g \<Longrightarrow> \<not> move_right g \<Longrightarrow>
   distinct (map bid (balls g)) \<Longrightarrow>
   \<forall>b\<in>set (balls g). \<forall>k<n. judge (paddle g) ((fall ^^ k) b) = Falling \<Longrightarrow>
   run (replicate n Tick) g = g\<lparr>balls := map (fall ^^ n) (balls g)\<rparr>"
proof (induction n arbitrary: g)
  case 0
  then show ?case by simp
next
  case (Suc n)
  let ?g = "g\<lparr>balls := map fall (balls g)\<rparr>"
  have now: "\<forall>b\<in>set (balls g). judge (paddle g) b = Falling"
    using Suc.prems(5) by force
  have u: "update g = ?g"
    using Suc.prems(1-4) now by (rule update_Falling)
  have later: "\<forall>b\<in>set (balls ?g). \<forall>k<n. judge (paddle ?g) ((fall ^^ k) b) = Falling"
  proof (intro ballI allI impI)
    fix b k
    assume "b \<in> set (balls ?g)" and k: "k < n"
    then obtain c where c: "c \<in> set (balls g)" and b: "b = fall c"
      by auto
    have "judge (paddle g) ((fall ^^ Suc k) c) = Falling"
      using Suc.prems(5) c k by (meson Suc_less_eq)
    then show "judge (paddle ?g) ((fall ^^ k) b) = Falling"
      by (simp add: b funpow_swap1)
  qed
  have d: "distinct (map bid (balls ?g))"
    using Suc.prems(4) by (simp add: comp_def)
  have "run (replicate n Tick) ?g = ?g\<lparr>balls := map (fall ^^ n) (balls ?g)\<rparr>"
    using Suc.prems(1-3) d later by (intro Suc.IH) simp_all
  then show ?case
    by (simp add: u funpow_swap1 comp_def)
qed

lemma fall_pow:
  "(fall ^^ n) b = b\<lparr>oval := canvas_move (oval b) 0 (BALL_FALL_SPEED * real n)\<rparr>"
proof (induction n)
  case 0
  show ?case by (cases "oval b") simp
next
  case (Suc n)
  have "(fall ^^ Suc n) b = fall ((fall ^^ n) b)"
    by simp
  also have "\<dots> = fall (b\<lparr>oval := canvas_move (oval b) 0 (BALL_FALL_SPEED * real n)\<rparr>)"
    by (simp only: Suc)
  also have "\<dots> = b\<lparr>oval := canvas_move (oval b) 0 (BALL_FALL_SPEED * real (Suc n))\<rparr>"
    by (cases "oval b") (simp add: fall_def move_def algebra_simps)
  finally show ?case .
qed

lemma pos_fall_pow [simp]:
  "pos ((fall ^^ n) b) = (fst (pos b), snd (pos b) + BALL_FALL_SPEED * real n)"
  by (cases "oval b") (simp add: fall_pow pos_def)

lemma r_fall_pow [simp]: "r ((fall ^^ n) b) = r b"
  by (simp add: fall_pow)

lemma judge_Falling_iff:
  "(judge p b = Falling) =
     (\<not> (HEIGHT - 30 - PADDLE_HEIGHT \<le> snd (pos b) + BALL_FALL_SPEED + r b
         \<and> left_edge p \<le> fst (pos b) \<and> fst (pos b) \<le> right_edge p)
      \<and> snd (pos b) + BALL_FALL_SPEED - r b \<le> HEIGHT)"
  using pos_fall[of b] by (auto simp add: judge_def classify_def fall_def Let_def)

lemma judge_pow_Falling:
  assumes "k < n"
    and "snd (pos b) - r b + BALL_FALL_SPEED * real n \<le> HEIGHT"
    and "fst (pos b) < left_edge p \<or> right_edge p < fst (pos b)
         \<or> snd (pos b) + r b + BALL_FALL_SPEED * real n < HEIGHT - 30 - PADDLE_HEIGHT"
  shows "judge p ((fall ^^ k) b) = Falling"
proof -
  have "real k + 1 \<le> real n"
    using assms(1) by simp
  then have k: "BALL_FALL_SPEED * real k + BALL_FALL_SPEED \<le> BALL_FALL_SPEED * real n"
    by (simp add: BALL_FALL_SPEED_def)
  have top: "snd (pos b) + BALL_FALL_SPEED * real k + BALL_FALL_SPEED - r b \<le> HEIGHT"
    using assms(2) k by linarith
  have span: "\<not> (HEIGHT - 30 - PADDLE_HEIGHT \<le> snd (pos b) + BALL_FALL_SPEED * real k + BALL_FALL_SPEED + r b
         \<and> left_edge p \<le> fst (pos b) \<and> fst (pos b) \<le> right_edge p)"
    using assms(3) k by linarith
  show ?thesis
    using top span by (simp add: judge_Falling_iff)
qed

section \<open>Runs from the initial state\<close>

lemma ticks_idle:
  assumes "\<not> game_over g" and "\<not> move_left g" and "\<not> move_right g"
    and "distinct (map bid (balls g))"
    and "\<forall>b\<in>set (balls g).
           snd (pos b) - r b + BALL_FALL_SPEED * real n \<le> HEIGHT
           \<and> (fst (pos b) < left_edge (paddle g) \<or> right_edge (paddle g) < fst (pos b)
              \<or> snd (pos b) + r b + BALL_FALL_SPEED * real n < HEIGHT - 30 - PADDLE_HEIGHT)"
  shows "run (replicate n Tick) g = g\<lparr>balls := map (fall ^^ n) (balls g)\<rparr>"
  using assms(1-4)
proof (rule ticks_Falling)
  show "\<forall>b\<in>set (balls g). \<forall>k<n. judge (paddle g) ((fall ^^ k) b) = Falling"
    using assms(5) by (blast intro: judge_pow_Falling)
qed

lemma init_state:
  "init = \<lparr>paddle_x = 250, paddle = (200, 358, 300, 370), score = 0, lives = 3,
           move_left = False, move_right = False, balls = [], game_over = False, next_id = 4\<rparr>"
  by (simp add: init_def update_def move_paddle_def Let_def game_consts)

lemma run_miss_one:
  assumes "0 \<le> l"
  shows "run miss_one
     \<lparr>paddle_x = 250, paddle = (200, 358, 300, 370), score = s, lives = l + 2,
      move_left = False, move_right = False, balls = [], game_over = False, next_id = i\<rparr>
   = \<lparr>paddle_x = 250, paddle = (200, 358, 300, 370), score = s, lives = l + 1,
      move_left = False, move_right = False, balls = [], game_over = False, next_id = Suc i\<rparr>"
proof -
  let ?g = "\<lparr>paddle_x = 250, paddle = (200, 358, 300, 370), score = s, lives = l + 2,
      move_left = False, move_right = False,
      balls = [\<lparr>bid = i, r = 12, oval = (0, - 24, 24, 0)\<rparr>], game_over = False,
      next_id = Suc i\<rparr>"
  have "run (replicate 106 Tick) ?g = ?g\<lparr>balls := map (fall ^^ 106) (balls ?g)\<rparr>"
    by (rule ticks_idle) (simp_all add: pos_def left_edge_def game_consts)
  then have "run (replicate 106 Tick) ?g = ?g\<lparr>balls := [\<lparr>bid = i, r = 12, oval = (0, 400, 24, 424)\<rparr>]\<rparr>"
    by (simp add: fall_pow game_consts)
  then show ?thesis
    using assms by (simp add: miss_one_def run_append spawn_ball_def Ball_def frame_defs)
qed

lemma two_lives_lost:
  "run (miss_one @ miss_one) init =
     \<lparr>paddle_x = 250, paddle = (200, 358, 300, 370), score = 0, lives = 1,
      move_left = False, move_right = False, balls = [], game_over = False, next_id = 6\<rparr>"
  using run_miss_one[of 1 0 4] run_miss_one[of 0 0 5]
  by (simp add: run_append init_state)


lemma before_last_miss_state:
  "run before_last_miss init =
     \<lparr>paddle_x = 250, paddle = (200, 358, 300, 370), score = 0, lives = 1,
      move_left = False, move_right = False,
      balls = [\<lparr>bid = 6, r = 12, oval = (0, 400, 24, 424)\<rparr>,
               \<lparr>bid = 7, r = 12, oval = (238, 332, 262, 356)\<rparr>],
      game_over = False, next_id = 8\<rparr>"
proof -
  let ?g = "\<lparr>paddle_x = 250, paddle = (200, 358, 300, 370), score = 0, lives = 1,
      move_left = False, move_right = False,
      balls = [\<lparr>bid = 6, r = 12, oval = (0, - 24, 24, 0)\<rparr>],
      game_over = False, next_id = 7\<rparr>"
  let ?h = "\<lparr>paddle_x = 250, paddle = (200, 358, 300, 370), score = 0, lives = 1,
      move_left = False, move_right = False,
      balls = [\<lparr>bid = 6, r = 12, oval = (0, 44, 24, 68)\<rparr>,
               \<lparr>bid = 7, r = 12, oval = (238, - 24, 262, 0)\<rparr>],
      game_over = False, next_id = 8\<rparr>"
  have "run (replicate 17 Tick) ?g = ?g\<lparr>balls := map (fall ^^ 17) (balls ?g)\<rparr>"
    by (rule ticks_idle) (simp_all add: pos_def left_edge_def game_consts)
  then have t1: "spawn_ball 250 (run (replicate 17 Tick) ?g) = ?h"
    by (simp add: fall_pow spawn_ball_def Ball_def game_consts)
  have "run (replicate 89 Tick) ?h = ?h\<lparr>balls := map (fall ^^ 89) (balls ?h)\<rparr>"
    by (rule ticks_idle) (simp_all add: pos_def left_edge_def game_consts)
  then have t2: "run (replicate 89 Tick) ?h =
      ?h\<lparr>balls := [\<lparr>bid = 6, r = 12, oval = (0, 400, 24, 424)\<rparr>,
                   \<lparr>bid = 7, r = 12, oval = (238, 332, 262, 356)\<rparr>]\<rparr>"
    by (simp add: fall_pow game_consts)
  have s: "spawn_ball 12 (run (miss_one @ miss_one) init) = ?g"
    by (simp add: two_lives_lost spawn_ball_def Ball_def game_consts)
  have "run before_last_miss init
      = run (replicate 89 Tick) (spawn_ball 250 (run (replicate 17 Tick)
          (spawn_ball 12 (run (miss_one @ miss_one) init))))"
    unfolding before_last_miss_def
    by (simp add: run_append)
  then show ?thesis
    by (simp add: s t1 t2)
qed

section \<open>At most one ball is missed in a frame\<close>

lemma r_fall [simp]: "r (fall b) = r b"
  by (simp add: fall_def)







section \<open>The state stays safe\<close>

lemma next_id_update_ball: "next_id g \<le> next_id (update_ball b g)"
  by (cases "judge (paddle g) b") (simp_all add: update_ball_judge end_game_def)

lemma next_id_update_balls: "next_id g \<le> next_id (update_balls bs g)"
proof (induction bs arbitrary: g)
  case Nil
  show ?case by simp
next
  case (Cons b bs)
  show ?case
    using next_id_update_ball[of g b] Cons.IH[of "update_ball b g"] by simp
qed

lemma next_id_move_paddle [simp]: "next_id (move_paddle g) = next_id g"
  by (simp add: move_paddle_def Let_def)

lemma next_id_update: "next_id g \<le> next_id (update g)"
  using next_id_update_balls[of "move_paddle g" "balls g"]
  by (simp add: update_def Let_def)









section \<open>The handles of the balls\<close>

lemma fresh_update:
  assumes "distinct (map bid (balls g))" and "\<forall>b\<in>set (balls g). bid b < next_id g"
  shows "distinct (map bid (balls (update g))) \<and> (\<forall>b\<in>set (balls (update g)). bid b < next_id (update g))"
proof (cases "game_over g")
  case True
  then show ?thesis
    using assms by (simp add: update_def)
next
  case False
  have "distinct (map bid (balls (update g)))"
    using assms(1) False by (simp add: balls_update comp_def distinct_map_filter)
  moreover have "\<forall>b\<in>set (balls (update g)). bid b < next_id (update g)"
    using assms next_id_update[of g] False by (auto simp: balls_update)
  ultimately show ?thesis by simp
qed

lemma fresh_fire:
  assumes "distinct (map bid (balls g)) \<and> (\<forall>b\<in>set (balls g). bid b < next_id g)"
  shows "distinct (map bid (balls (fire e g))) \<and> (\<forall>b\<in>set (balls (fire e g)). bid b < next_id (fire e g))"
proof (cases e)
  case Tick
  then show ?thesis
    using fresh_update[of g] assms by simp
next
  case (Spawn x)
  then show ?thesis
    using assms by (auto simp: spawn_ball_def Ball_def less_Suc_eq)
next
  case (Key d)
  then show ?thesis
    using assms by (simp add: set_move_def)
next
  case Restart
  then show ?thesis
    by (simp add: restart_def update_def Let_def)
qed

lemma fresh_run:
  "distinct (map bid (balls g)) \<and> (\<forall>b\<in>set (balls g). bid b < next_id g) \<Longrightarrow>
   distinct (map bid (balls (run es g))) \<and> (\<forall>b\<in>set (balls (run es g)). bid b < next_id (run es g))"
proof (induction es arbitrary: g)
  case Nil
  then show ?case by simp
next
  case (Cons e es)
  from Cons.IH[OF fresh_fire[OF Cons.prems]] show ?case by simp
qed

lemma reachable_distinct: "distinct (map bid (balls (run es init)))"
  using fresh_run[of init es] by (simp add: init_state)

lemma judge_Missed_iff:
  "(judge p b = Missed) =
     (\<not> (HEIGHT - 30 - PADDLE_HEIGHT \<le> snd (pos b) + BALL_FALL_SPEED + r b
         \<and> left_edge p \<le> fst (pos b) \<and> fst (pos b) \<le> right_edge p)
      \<and> HEIGHT < snd (pos b) + BALL_FALL_SPEED - r b)"
  using pos_fall[of b] by (auto simp add: judge_def classify_def fall_def Let_def)

section \<open>The claims\<close>

subsection \<open>The classifier\<close>

text \<open>
  C1. Take a frame of a running game whose balls have distinct handles, as they have in
  every state the program reaches. Every ball of the list advances by
  \<open>BALL_FALL_SPEED\<close> and is judged on its new position against the paddle as the frame
  has moved it. It is Caught exactly when its bottom edge (centre y plus radius) has
  reached \<open>HEIGHT - 30 - PADDLE_HEIGHT\<close>, the top row of the paddle, and its centre x
  lies in the closed span of the paddle; the catch is tested first. A ball that is not
  caught is Missed exactly when its top edge (centre y minus radius) is strictly below
  \<open>HEIGHT\<close>, and Falling otherwise. After the frame the list holds exactly the Falling
  balls, in their order, each moved down by \<open>BALL_FALL_SPEED\<close>; the score has grown by
  the number of Caught balls and the lives have shrunk by the number of Missed balls.
  So a ball at the paddle row within the span is never missed, and a ball below the
  paddle row outside the span stays in the list, moved, until its top edge has passed
  \<open>HEIGHT\<close>. The last part is the body of the loop for one ball.
\<close>

theorem classifier_of_update:
  assumes "\<not> game_over g" and "distinct (map bid (balls g))"
  shows "balls (update g)
           = map fall (filter (\<lambda>b. judge (paddle (move_paddle g)) b = Falling) (balls g))
       \<and> score (update g)
           = score g + int (length (filter (\<lambda>b. judge (paddle (move_paddle g)) b = Caught) (balls g)))
       \<and> lives (update g)
           = lives g - int (length (filter (\<lambda>b. judge (paddle (move_paddle g)) b = Missed) (balls g)))
       \<and> (\<forall>b\<in>set (balls g).
            (bid b \<in> bid ` set (balls (update g))) = (judge (paddle (move_paddle g)) b = Falling))
       \<and> (\<forall>b\<in>set (balls g).
            (fall b \<in> set (balls (update g))) = (judge (paddle (move_paddle g)) b = Falling))
       \<and> (judge p c = Caught) =
           (HEIGHT - 30 - PADDLE_HEIGHT \<le> snd (pos (fall c)) + r c
            \<and> left_edge p \<le> fst (pos (fall c)) \<and> fst (pos (fall c)) \<le> right_edge p)
       \<and> (judge p c = Missed) =
           (\<not> (HEIGHT - 30 - PADDLE_HEIGHT \<le> snd (pos (fall c)) + r c
               \<and> left_edge p \<le> fst (pos (fall c)) \<and> fst (pos (fall c)) \<le> right_edge p)
            \<and> HEIGHT < snd (pos (fall c)) - r c)
       \<and> (judge p c = Falling) =
           (\<not> (HEIGHT - 30 - PADDLE_HEIGHT \<le> snd (pos (fall c)) + r c
               \<and> left_edge p \<le> fst (pos (fall c)) \<and> fst (pos (fall c)) \<le> right_edge p)
            \<and> snd (pos (fall c)) - r c \<le> HEIGHT)
       \<and> pos (fall c) = (fst (pos c), snd (pos c) + BALL_FALL_SPEED)
       \<and> r (fall c) = r c \<and> bid (fall c) = bid c
       \<and> distinct (map bid (balls (run es init)))
       \<and> update_ball c h =
           (case judge (paddle h) c of
              Caught \<Rightarrow> h\<lparr>score := score h + 1, balls := remove_ball c (shift_ball c (balls h))\<rparr>
            | Missed \<Rightarrow>
                (if lives h - 1 \<le> 0
                 then end_game (h\<lparr>lives := lives h - 1, balls := remove_ball c (shift_ball c (balls h))\<rparr>)
                 else h\<lparr>lives := lives h - 1, balls := remove_ball c (shift_ball c (balls h))\<rparr>)
            | Falling \<Rightarrow> h\<lparr>balls := shift_ball c (balls h)\<rparr>)"
proof -
  let ?p = "paddle (move_paddle g)"
  have bs: "balls (update g) = map fall (filter (\<lambda>b. judge ?p b = Falling) (balls g))"
    using assms by (simp add: balls_update)
  have sc: "score (update g) = score g + int (length (filter (\<lambda>b. judge ?p b = Caught) (balls g)))"
    using assms(1) by (simp add: score_update)
  have lv: "lives (update g) = lives g - int (length (filter (\<lambda>b. judge ?p b = Missed) (balls g)))"
    using assms(1) by (simp add: lives_update)
  have inj: "inj_on bid (set (balls g))"
    using assms(2) by (rule bid_inj_on)
  have ids: "(bid b \<in> bid ` set (balls (update g))) = (judge ?p b = Falling)"
    if b: "b \<in> set (balls g)" for b
  proof
    assume "bid b \<in> bid ` set (balls (update g))"
    then obtain c where c: "c \<in> set (balls g)" "judge ?p c = Falling" "bid b = bid c"
      by (auto simp: bs)
    from inj b c(1,3) have "b = c"
      by (simp add: inj_on_def)
    then show "judge ?p b = Falling"
      using c(2) by simp
  next
    assume "judge ?p b = Falling"
    then have "fall b \<in> set (balls (update g))"
      using b by (simp add: bs)
    then have "bid (fall b) \<in> bid ` set (balls (update g))"
      by (rule imageI)
    then show "bid b \<in> bid ` set (balls (update g))"
      by simp
  qed
  have kept: "(fall b \<in> set (balls (update g))) = (judge ?p b = Falling)"
    if b: "b \<in> set (balls g)" for b
  proof
    assume "fall b \<in> set (balls (update g))"
    then have "bid (fall b) \<in> bid ` set (balls (update g))"
      by (rule imageI)
    then show "judge ?p b = Falling"
      using ids[OF b] by simp
  next
    assume "judge ?p b = Falling"
    then show "fall b \<in> set (balls (update g))"
      using b by (simp add: bs)
  qed
  have pf: "pos (fall c) = (fst (pos c), snd (pos c) + BALL_FALL_SPEED)"
    by (rule pos_fall)
  have j1: "(judge p c = Caught) =
           (HEIGHT - 30 - PADDLE_HEIGHT \<le> snd (pos (fall c)) + r c
            \<and> left_edge p \<le> fst (pos (fall c)) \<and> fst (pos (fall c)) \<le> right_edge p)"
    by (simp add: judge_Caught_iff pf)
  have j2: "(judge p c = Missed) =
           (\<not> (HEIGHT - 30 - PADDLE_HEIGHT \<le> snd (pos (fall c)) + r c
               \<and> left_edge p \<le> fst (pos (fall c)) \<and> fst (pos (fall c)) \<le> right_edge p)
            \<and> HEIGHT < snd (pos (fall c)) - r c)"
    by (simp add: judge_Missed_iff pf)
  have j3: "(judge p c = Falling) =
           (\<not> (HEIGHT - 30 - PADDLE_HEIGHT \<le> snd (pos (fall c)) + r c
               \<and> left_edge p \<le> fst (pos (fall c)) \<and> fst (pos (fall c)) \<le> right_edge p)
            \<and> snd (pos (fall c)) - r c \<le> HEIGHT)"
    by (simp add: judge_Falling_iff pf)
  have rb: "r (fall c) = r c" "bid (fall c) = bid c"
    by (simp_all add: fall_def)
  show ?thesis
    using bs sc lv ids kept j1 j2 j3 pf rb reachable_distinct[of es] update_ball_judge[of c h]
    by blast
qed

theorem classifier_of_update_witness:
  "\<not> game_over busy_state \<and> distinct (map bid (balls busy_state))
   \<and> map (judge (paddle (move_paddle busy_state))) (balls busy_state)
       = [Caught, Missed, Falling, Falling]
   \<and> balls (update busy_state)
       = [\<lparr>bid = 6, r = 12, oval = (88, 104, 112, 128)\<rparr>,
          \<lparr>bid = 7, r = 12, oval = (88, 364, 112, 388)\<rparr>]
   \<and> score (update busy_state) = 6 \<and> lives (update busy_state) = 2"
proof -
  have h1: "\<not> game_over busy_state"
    by (simp add: busy_state_def)
  have h2: "distinct (map bid (balls busy_state))"
    by (simp add: busy_state_def ball_a_def ball_b_def ball_c_def ball_d_def)
  have p: "paddle (move_paddle busy_state) = (200, 358, 300, 370)"
    by (simp add: busy_state_def move_paddle_def Let_def)
  have j: "judge (200, 358, 300, 370) ball_a = Caught" "judge (200, 358, 300, 370) ball_b = Missed"
    "judge (200, 358, 300, 370) ball_c = Falling" "judge (200, 358, 300, 370) ball_d = Falling"
    by (simp_all add: judge_def classify_def Let_def move_def pos_def left_edge_def right_edge_def
        ball_a_def ball_b_def ball_c_def ball_d_def game_consts)
  have b: "balls busy_state = [ball_a, ball_b, ball_c, ball_d]"
    "score busy_state = 5" "lives busy_state = 3"
    by (simp_all add: busy_state_def)
  have f: "fall ball_c = \<lparr>bid = 6, r = 12, oval = (88, 104, 112, 128)\<rparr>"
    "fall ball_d = \<lparr>bid = 7, r = 12, oval = (88, 364, 112, 388)\<rparr>"
    by (simp_all add: fall_def move_def ball_c_def ball_d_def game_consts)
  from classifier_of_update[OF h1 h2] h1 h2 show ?thesis
    by (simp add: p j b f)
qed

subsection \<open>Restart\<close>

text \<open>
  C6. From any state, \<open>restart\<close> gives score 0, lives 3, no balls and a running game,
  the values these four fields have in the initial state. It is one callback, so no
  state in between is seen by another callback.
\<close>

theorem restart_resets:
  "score (restart g) = 0 \<and> lives (restart g) = 3 \<and> balls (restart g) = []
   \<and> \<not> game_over (restart g)
   \<and> score init = 0 \<and> lives init = 3 \<and> balls init = [] \<and> \<not> game_over init"
  by (simp add: restart_def init_def update_def Let_def)

subsection \<open>Monotonicity of a frame\<close>

text \<open>
  C8. A frame never increases the lives and never decreases the score. This holds for
  every state, so in particular while the game is running.
\<close>

theorem tick_monotone: "lives (update g) \<le> lives g \<and> score g \<le> score (update g)"
  by (simp add: score_update lives_update)

subsection \<open>The terminal state\<close>

text \<open>
  C5. Once \<open>game_over\<close> is set, \<open>update\<close> and \<open>spawn_ball\<close> return the state as it is, and
  any run of frames, spawns and key events that has no restart leaves the score, the
  lives and the list of balls unchanged and the game over.
\<close>

theorem game_over_is_terminal:
  assumes "game_over g" and "Restart \<notin> set es"
  shows "update g = g \<and> spawn_ball x g = g
         \<and> score (run es g) = score g \<and> lives (run es g) = lives g
         \<and> balls (run es g) = balls g \<and> game_over (run es g)"
  using run_when_over[OF assms] assms(1) by (simp add: update_def spawn_ball_def)

theorem game_over_is_terminal_witness:
  "game_over over_state \<and> Restart \<notin> set [Tick, Spawn 100, Key (- 1), Tick]
   \<and> update over_state = over_state \<and> spawn_ball 100 over_state = over_state
   \<and> score (run [Tick, Spawn 100, Key (- 1), Tick] over_state) = score over_state
   \<and> lives (run [Tick, Spawn 100, Key (- 1), Tick] over_state) = lives over_state
   \<and> balls (run [Tick, Spawn 100, Key (- 1), Tick] over_state) = balls over_state
   \<and> game_over (run [Tick, Spawn 100, Key (- 1), Tick] over_state)"
proof -
  have h1: "game_over over_state"
    by (simp add: over_state_def)
  have h2: "Restart \<notin> set [Tick, Spawn 100, Key (- 1), Tick]"
    by simp
  from game_over_is_terminal[OF h1 h2, of 100] h1 h2 show ?thesis
    by blast
qed

subsection \<open>The paddle stays on the canvas\<close>

text \<open>
  C7. If the centre of the paddle is between \<open>PADDLE_WIDTH / 2\<close> and
  \<open>WIDTH - PADDLE_WIDTH / 2\<close> before a frame, it is so after the paddle step, for every
  setting of the two movement flags. The new centre is the old centre plus the step,
  clamped to that interval: it is moved back by no more than the overshoot. The
  rectangle on the canvas moves by the same amount as the centre, so its edges stay in
  \<open>[0, WIDTH]\<close> when they sat at the centre plus and minus half the width before.
\<close>

theorem paddle_stays_in_bounds:
  assumes "PADDLE_WIDTH / 2 \<le> paddle_x g" and "paddle_x g \<le> WIDTH - PADDLE_WIDTH / 2"
  shows "PADDLE_WIDTH / 2 \<le> paddle_x (move_paddle g)
       \<and> paddle_x (move_paddle g) \<le> WIDTH - PADDLE_WIDTH / 2
       \<and> paddle_x (move_paddle g) =
           max (PADDLE_WIDTH / 2) (min (WIDTH - PADDLE_WIDTH / 2)
             (paddle_x g + (if move_left g then - 8 else if move_right g then 8 else 0)))
       \<and> left_edge (paddle (move_paddle g)) - left_edge (paddle g) = paddle_x (move_paddle g) - paddle_x g
       \<and> right_edge (paddle (move_paddle g)) - right_edge (paddle g) = paddle_x (move_paddle g) - paddle_x g
       \<and> paddle_x (update g) = (if game_over g then paddle_x g else paddle_x (move_paddle g))
       \<and> paddle (update g) = (if game_over g then paddle g else paddle (move_paddle g))"
proof -
  obtain x1 y1 x2 y2 where p: "paddle g = (x1, y1, x2, y2)"
    by (cases "paddle g")
  have a: "PADDLE_WIDTH / 2 \<le> paddle_x (move_paddle g)
       \<and> paddle_x (move_paddle g) \<le> WIDTH - PADDLE_WIDTH / 2
       \<and> paddle_x (move_paddle g) =
           max (PADDLE_WIDTH / 2) (min (WIDTH - PADDLE_WIDTH / 2)
             (paddle_x g + (if move_left g then - 8 else if move_right g then 8 else 0)))"
    using assms by (simp add: move_paddle_def Let_def game_consts)
  have b: "left_edge (paddle (move_paddle g)) - left_edge (paddle g) = paddle_x (move_paddle g) - paddle_x g"
    "right_edge (paddle (move_paddle g)) - right_edge (paddle g) = paddle_x (move_paddle g) - paddle_x g"
    by (simp_all add: move_paddle_def Let_def left_edge_def right_edge_def p)
  have c: "paddle_x (update g) = (if game_over g then paddle_x g else paddle_x (move_paddle g))"
    "paddle (update g) = (if game_over g then paddle g else paddle (move_paddle g))"
    by (simp_all add: update_def Let_def)
  show ?thesis using a b c by simp
qed

theorem paddle_stays_in_bounds_witness:
  "PADDLE_WIDTH / 2 \<le> paddle_x edge_state \<and> paddle_x edge_state \<le> WIDTH - PADDLE_WIDTH / 2
   \<and> paddle_x (move_paddle edge_state) = 50 \<and> paddle_x (update edge_state) = 50
   \<and> paddle (update edge_state) = (0, 358, 100, 370)"
proof -
  have h1: "PADDLE_WIDTH / 2 \<le> paddle_x edge_state"
    by (simp add: edge_state_def game_consts)
  have h2: "paddle_x edge_state \<le> WIDTH - PADDLE_WIDTH / 2"
    by (simp add: edge_state_def game_consts)
  have 3: "paddle (move_paddle edge_state) = (0, 358, 100, 370)"
    by (simp add: edge_state_def move_paddle_def Let_def game_consts)
  have 4: "\<not> game_over edge_state" "move_left edge_state" "paddle_x edge_state = 52"
    by (simp_all add: edge_state_def)
  from paddle_stays_in_bounds[OF h1 h2] h1 h2 3 4 show ?thesis
    by (simp add: game_consts)
qed

subsection \<open>The movement flags\<close>

text \<open>
  C9, as the specification states it: some sequence of key events, each a call of
  \<open>set_move\<close> with a direction among -1, 0 and 1, leads from the initial state to a state
  in which \<open>move_left\<close> and \<open>move_right\<close> are both true. No such sequence exists.
\<close>

theorem no_key_sequence_sets_both_flags:
  "\<not> (\<exists>ds. set ds \<subseteq> {- 1, 0, 1}
          \<and> move_left (run (map Key ds) init) \<and> move_right (run (map Key ds) init))"
  using flags_run[of init] flags_init by blast

text \<open>
  C9, amended: after any sequence of callbacks from the initial state at most one of
  \<open>move_left\<close> and \<open>move_right\<close> is true, and after \<open>set_move\<close> the left flag is true
  exactly for direction -1 and the right flag exactly for direction 1, whatever the
  flags were before: the last key event wins.
\<close>

theorem flags_never_both:
  "\<not> (move_left (run es init) \<and> move_right (run es init))
   \<and> move_left (set_move d g) = (d = - 1) \<and> move_right (set_move d g) = (d = 1)"
  using flags_run[of init es] flags_init flags_set_move[of d g] by simp

subsection \<open>The order of the balls\<close>

text \<open>
  C4. Take a state and two lists of distinct balls that are permutations of each other.
  The frame gives the same score, the same lives and the same phase for both lists, the
  same balls are kept, and the same balls are removed. The paddle step of the frame does
  not read the balls, so it puts the paddle at the same place for both lists.
\<close>

theorem frame_order_independent:
  assumes "mset bs = mset cs" and "distinct (map bid bs)"
  shows "score (update (g\<lparr>balls := bs\<rparr>)) = score (update (g\<lparr>balls := cs\<rparr>))
       \<and> lives (update (g\<lparr>balls := bs\<rparr>)) = lives (update (g\<lparr>balls := cs\<rparr>))
       \<and> game_over (update (g\<lparr>balls := bs\<rparr>)) = game_over (update (g\<lparr>balls := cs\<rparr>))
       \<and> mset (balls (update (g\<lparr>balls := bs\<rparr>))) = mset (balls (update (g\<lparr>balls := cs\<rparr>)))
       \<and> bid ` set bs - bid ` set (balls (update (g\<lparr>balls := bs\<rparr>)))
           = bid ` set cs - bid ` set (balls (update (g\<lparr>balls := cs\<rparr>)))"
proof -
  let ?p = "paddle (move_paddle g)"
  have p: "paddle (move_paddle (g\<lparr>balls := xs\<rparr>)) = ?p" for xs
    by (simp add: move_paddle_balls_update)
  have dc: "distinct (map bid cs)"
    using assms distinct_bid_mset by blast
  have s: "score (update (g\<lparr>balls := bs\<rparr>)) = score (update (g\<lparr>balls := cs\<rparr>))"
    using length_filter_mset[OF assms(1), of "\<lambda>b. judge ?p b = Caught"]
    by (simp add: score_update p)
  have l: "lives (update (g\<lparr>balls := bs\<rparr>)) = lives (update (g\<lparr>balls := cs\<rparr>))"
    using length_filter_mset[OF assms(1), of "\<lambda>b. judge ?p b = Missed"]
    by (simp add: lives_update p)
  have o: "game_over (update (g\<lparr>balls := bs\<rparr>)) = game_over (update (g\<lparr>balls := cs\<rparr>))"
    using length_filter_mset[OF assms(1), of "\<lambda>b. judge ?p b = Missed"]
      filter_empty_mset[OF assms(1), of "\<lambda>b. judge ?p b = Missed"]
    by (simp add: game_over_update p)
  have m: "mset (balls (update (g\<lparr>balls := bs\<rparr>))) = mset (balls (update (g\<lparr>balls := cs\<rparr>)))"
    using assms(1) by (simp add: balls_update assms(2) dc p)
  have "set bs = set cs"
    using assms(1) by (rule mset_eq_setD)
  moreover have "set (balls (update (g\<lparr>balls := bs\<rparr>))) = set (balls (update (g\<lparr>balls := cs\<rparr>)))"
    using m by (rule mset_eq_setD)
  ultimately have i: "bid ` set bs - bid ` set (balls (update (g\<lparr>balls := bs\<rparr>)))
           = bid ` set cs - bid ` set (balls (update (g\<lparr>balls := cs\<rparr>)))"
    by simp
  show ?thesis using s l o m i by simp
qed

theorem frame_order_independent_witness:
  "mset [ball_a, ball_b, ball_c] = mset [ball_c, ball_b, ball_a]
   \<and> distinct (map bid [ball_a, ball_b, ball_c])
   \<and> score (update (last_life\<lparr>balls := [ball_a, ball_b, ball_c]\<rparr>)) = 1
   \<and> score (update (last_life\<lparr>balls := [ball_c, ball_b, ball_a]\<rparr>)) = 1
   \<and> lives (update (last_life\<lparr>balls := [ball_a, ball_b, ball_c]\<rparr>)) = 0
   \<and> lives (update (last_life\<lparr>balls := [ball_c, ball_b, ball_a]\<rparr>)) = 0
   \<and> game_over (update (last_life\<lparr>balls := [ball_a, ball_b, ball_c]\<rparr>))
   \<and> game_over (update (last_life\<lparr>balls := [ball_c, ball_b, ball_a]\<rparr>))
   \<and> mset (balls (update (last_life\<lparr>balls := [ball_a, ball_b, ball_c]\<rparr>)))
       = mset (balls (update (last_life\<lparr>balls := [ball_c, ball_b, ball_a]\<rparr>)))
   \<and> bid ` set (balls (update (last_life\<lparr>balls := [ball_c, ball_b, ball_a]\<rparr>))) = {6}"
proof -
  have h1: "mset [ball_a, ball_b, ball_c] = mset [ball_c, ball_b, ball_a]"
    by (simp add: add_mset_commute)
  have h2: "distinct (map bid [ball_a, ball_b, ball_c])"
    by (simp add: ball_a_def ball_b_def ball_c_def)
  have e: "score (update (last_life\<lparr>balls := [ball_a, ball_b, ball_c]\<rparr>)) = 1"
    "lives (update (last_life\<lparr>balls := [ball_a, ball_b, ball_c]\<rparr>)) = 0"
    "game_over (update (last_life\<lparr>balls := [ball_a, ball_b, ball_c]\<rparr>))"
    "bid ` set (balls (update (last_life\<lparr>balls := [ball_a, ball_b, ball_c]\<rparr>))) = {6}"
    by (simp_all add: last_life_def ball_a_def ball_b_def ball_c_def frame_defs)
  note t = frame_order_independent[OF h1 h2, of last_life]
  have "set (balls (update (last_life\<lparr>balls := [ball_a, ball_b, ball_c]\<rparr>)))
      = set (balls (update (last_life\<lparr>balls := [ball_c, ball_b, ball_a]\<rparr>)))"
    using t by (blast dest: mset_eq_setD)
  then have i: "bid ` set (balls (update (last_life\<lparr>balls := [ball_c, ball_b, ball_a]\<rparr>))) = {6}"
    using e(4) by simp
  from t h1 h2 e i show ?thesis
    by simp
qed

subsection \<open>A late catch\<close>

text \<open>
  C10. Take a running game and a ball of its list whose bottom edge is at or below the
  top row of the paddle, however far below: under the paddle, or wholly below the
  canvas. If the centre x of the ball lies in the span of the paddle after the paddle
  step of the frame, the frame judges the ball Caught: the score grows by one for it,
  no life is lost for it, and it leaves the list. With this ball alone in the list the
  score grows by exactly one and the lives stay.
\<close>

theorem late_catch:
  assumes "\<not> game_over g" and "distinct (map bid (balls g))" and "b \<in> set (balls g)"
    and "HEIGHT - 30 - PADDLE_HEIGHT \<le> snd (pos b) + r b"
    and "left_edge (paddle (move_paddle g)) \<le> fst (pos b)"
    and "fst (pos b) \<le> right_edge (paddle (move_paddle g))"
  shows "judge (paddle (move_paddle g)) b = Caught
       \<and> score g + 1 \<le> score (update g)
       \<and> bid b \<notin> bid ` set (balls (update g))
       \<and> score (update (g\<lparr>balls := [b]\<rparr>)) = score g + 1
       \<and> lives (update (g\<lparr>balls := [b]\<rparr>)) = lives g
       \<and> balls (update (g\<lparr>balls := [b]\<rparr>)) = []"
proof -
  let ?p = "paddle (move_paddle g)"
  have c: "judge ?p b = Caught"
    using assms(4-6) by (simp add: judge_Caught_iff game_consts)
  have "b \<in> set (filter (\<lambda>c. judge ?p c = Caught) (balls g))"
    using c assms(3) by simp
  then have "0 < length (filter (\<lambda>c. judge ?p c = Caught) (balls g))"
    by (rule length_pos_if_in_set)
  then have "score g + 1 \<le> score g + int (length (filter (\<lambda>c. judge ?p c = Caught) (balls g)))"
    by arith
  moreover have "score (update g) = score g + int (length (filter (\<lambda>c. judge ?p c = Caught) (balls g)))"
    using assms(1) by (simp add: score_update)
  ultimately have s: "score g + 1 \<le> score (update g)"
    by (rule ord_le_eq_trans[OF _ sym])
  have gone: "bid b \<notin> bid ` set (balls (update g))"
  proof
    assume "bid b \<in> bid ` set (balls (update g))"
    then obtain c where c1: "c \<in> set (balls g)" and c2: "judge ?p c = Falling"
      and c3: "bid b = bid c"
      using assms(1) by (auto simp: balls_update[OF assms(2)])
    from bid_inj_on[OF assms(2)] c1 assms(3) c3 have "b = c"
      by (simp add: inj_on_def)
    with c c2 show False by simp
  qed
  have p1: "paddle (move_paddle (g\<lparr>balls := [b]\<rparr>)) = ?p"
    by (simp add: move_paddle_balls_update)
  have one: "score (update (g\<lparr>balls := [b]\<rparr>)) = score g + 1"
    "lives (update (g\<lparr>balls := [b]\<rparr>)) = lives g"
    "balls (update (g\<lparr>balls := [b]\<rparr>)) = []"
    using assms(1) c by (simp_all add: score_update lives_update balls_update p1)
  show ?thesis
    using c s gone one by simp
qed

theorem late_catch_witness:
  "\<not> game_over late_state \<and> distinct (map bid (balls late_state))
   \<and> late_ball \<in> set (balls late_state)
   \<and> snd (pos late_ball) - r late_ball = HEIGHT
   \<and> \<not> (left_edge (paddle late_state) \<le> fst (pos late_ball))
   \<and> left_edge (paddle (move_paddle late_state)) \<le> fst (pos late_ball)
   \<and> fst (pos late_ball) \<le> right_edge (paddle (move_paddle late_state))
   \<and> judge (paddle (move_paddle late_state)) late_ball = Caught
   \<and> score (update late_state) = 1 \<and> lives (update late_state) = 3
   \<and> balls (update late_state) = []"
proof -
  have h1: "\<not> game_over late_state"
    by (simp add: late_state_def)
  have h2: "distinct (map bid (balls late_state))"
    by (simp add: late_state_def)
  have h3: "late_ball \<in> set (balls late_state)"
    by (simp add: late_state_def)
  have p: "paddle (move_paddle late_state) = (192, 358, 292, 370)"
    by (simp add: late_state_def move_paddle_def Let_def game_consts)
  have q: "pos late_ball = (195, 412)" "r late_ball = 12"
    by (simp_all add: late_ball_def pos_def)
  have h4: "HEIGHT - 30 - PADDLE_HEIGHT \<le> snd (pos late_ball) + r late_ball"
    by (simp add: q game_consts)
  have h5: "left_edge (paddle (move_paddle late_state)) \<le> fst (pos late_ball)"
    by (simp add: p q left_edge_def)
  have h6: "fst (pos late_ball) \<le> right_edge (paddle (move_paddle late_state))"
    by (simp add: p q right_edge_def)
  have e: "late_state\<lparr>balls := [late_ball]\<rparr> = late_state"
    by (simp add: late_state_def)
  have o: "snd (pos late_ball) - r late_ball = HEIGHT"
    "\<not> (left_edge (paddle late_state) \<le> fst (pos late_ball))"
    by (simp_all add: q game_consts late_state_def left_edge_def)
  from late_catch[OF h1 h2 h3 h4 h5 h6] h1 h2 h3 h5 h6 o show ?thesis
    by (simp add: e late_state_def)
qed

subsection \<open>The floor of the lives\<close>




subsection \<open>Balls judged after the game has ended\<close>

text \<open>
  C2, evaluated. After \<open>before_last_miss\<close>, a sequence of frames and spawns from the
  initial state, the game runs on its last life with ball 6 below the canvas and ball 7
  above the paddle. In the next frame ball 6 is missed, which ends the game with score
  0; the loop goes on to ball 7, which is caught: the frame ends with score 1 and ball
  7 removed.
\<close>

theorem caught_after_game_over:
  "lives (run before_last_miss init) = 1
   \<and> score (run before_last_miss init) = 0
   \<and> \<not> game_over (run before_last_miss init)
   \<and> map bid (balls (run before_last_miss init)) = [6, 7]
   \<and> update (run before_last_miss init)
       = update_ball (balls (run before_last_miss init) ! 1)
           (update_ball (balls (run before_last_miss init) ! 0) (run before_last_miss init))
   \<and> game_over (update_ball (balls (run before_last_miss init) ! 0) (run before_last_miss init))
   \<and> lives (update_ball (balls (run before_last_miss init) ! 0) (run before_last_miss init)) = 0
   \<and> score (update_ball (balls (run before_last_miss init) ! 0) (run before_last_miss init)) = 0
   \<and> map bid (balls (update_ball (balls (run before_last_miss init) ! 0) (run before_last_miss init))) = [7]
   \<and> score (update (run before_last_miss init)) = 1
   \<and> lives (update (run before_last_miss init)) = 0
   \<and> balls (update (run before_last_miss init)) = []"
  by (simp add: before_last_miss_state frame_defs)

end
